theory Spec2Isabelle
  imports Complex_Main
begin

section \<open>PhotoVault: face detection service and app storage service\<close>

text \<open>
  A shallow embedding of \<^verbatim>\<open>photovault/services/face_detection_service.py\<close> and of
  \<^verbatim>\<open>upload_file\<close> in \<^verbatim>\<open>photovault/services/app_storage_service.py\<close>.
  Every public method of the two services catches \<^verbatim>\<open>Exception\<close>; an exception is the
  text of its message (what \<^verbatim>\<open>str(e)\<close> gives), and an operation that may raise returns
  a sum whose left injection is the exception.
\<close>

type_synonym exn = string

subsection \<open>Data model\<close>

text \<open>
  Modelled from the spec: the module \<^verbatim>\<open>photovault.models\<close> (the classes \<^verbatim>\<open>Photo\<close>,
  \<^verbatim>\<open>Person\<close>, \<^verbatim>\<open>PhotoPerson\<close> and the handle \<^verbatim>\<open>db\<close>) is not among the sources.
  The columns are the attributes the data model of the spec lists and the service
  reads or writes. The primary key \<^verbatim>\<open>id\<close> of each table carries a prefix, since
  \<open>id\<close> is the identity function of HOL.
\<close>

record photo =
  ph_id :: int
  ph_user_id :: int
  file_path :: string

record person =
  pe_id :: int
  pe_user_id :: int
  pe_name :: string

record photo_person =
  pp_id :: int
  photo_id :: int
  person_id :: "int option"
  face_x :: int
  face_y :: int
  face_width :: int
  face_height :: int
  confidence :: real
  verified :: bool

text \<open>
  One element of the list \<^verbatim>\<open>detect_faces_in_photo\<close> returns: the dictionary with the
  keys \<^verbatim>\<open>id\<close>, \<^verbatim>\<open>x\<close>, \<^verbatim>\<open>y\<close>, \<^verbatim>\<open>width\<close>, \<^verbatim>\<open>height\<close>, \<^verbatim>\<open>confidence\<close>.
\<close>

record face =
  d_id :: nat
  d_x :: int
  d_y :: int
  d_width :: int
  d_height :: int
  d_confidence :: real

text \<open>
  Modelled from the spec: the relational store behind \<^verbatim>\<open>db.session\<close>, a transactional
  repository. \<open>committed\<close> is the stored table of face regions; \<open>working\<close> is the same
  table as the open session sees it (rows added and attributes assigned since the last
  commit or rollback included, as with the session's default autoflush). \<open>pp_seq\<close> is the
  next primary key of the table. \<open>script\<close> is what the environment does to the round
  trips to the database still to come: the next round trip raises the exception \<open>e\<close>
  when the head of the script is \<open>Some e\<close>, and succeeds when it is \<open>None\<close> or when the
  script is exhausted.
\<close>

record database =
  photos :: "photo list"
  persons :: "person list"
  committed :: "photo_person list"
  working :: "photo_person list"
  pp_seq :: int
  script :: "exn option list"

text \<open>The service object: \<^verbatim>\<open>self._available\<close>, set once by the constructor.\<close>

record service =
  available :: bool

text \<open>
  What the service reaches outside the database: \<^verbatim>\<open>os.path.exists\<close> and the calls
  into \<^verbatim>\<open>cv2\<close>. \<^verbatim>\<open>imread\<close> returns \<^verbatim>\<open>None\<close> for a file it cannot decode.
  \<^verbatim>\<open>detectMultiScale\<close> stands for loading the Haar cascade and running it with the
  fixed arguments \<^verbatim>\<open>scaleFactor=1.1, minNeighbors=5, minSize=(30, 30)\<close>; it yields the
  rectangles \<open>(x, y, w, h)\<close>.
\<close>

record 'img environment =
  path_exists :: "string \<Rightarrow> bool"
  imread :: "string \<Rightarrow> exn + 'img option"
  cvtColor :: "'img \<Rightarrow> exn + 'img"
  detectMultiScale :: "'img \<Rightarrow> exn + (int \<times> int \<times> int \<times> int) list"

subsection \<open>The session\<close>

definition round_trip :: "database \<Rightarrow> exn option \<times> database" where
  "round_trip s =
     (case script s of
        [] \<Rightarrow> (None, s)
      | f # fs \<Rightarrow> (f, s\<lparr>script := fs\<rparr>))"

text \<open>\<^verbatim>\<open>Photo.query.get(photo_id)\<close>\<close>

definition photo_get :: "int \<Rightarrow> database \<Rightarrow> (exn + photo option) \<times> database" where
  "photo_get pid s =
     (case round_trip s of
        (Some e, s') \<Rightarrow> (Inl e, s')
      | (None, s') \<Rightarrow> (Inr (find (\<lambda>p. ph_id p = pid) (photos s')), s'))"

text \<open>\<^verbatim>\<open>PhotoPerson.query.filter_by(photo_id=..., face_x=..., ...).first()\<close>\<close>

definition same_region :: "int \<Rightarrow> face \<Rightarrow> photo_person \<Rightarrow> bool" where
  "same_region pid f r \<longleftrightarrow>
     photo_id r = pid \<and> face_x r = d_x f \<and> face_y r = d_y f \<and>
     face_width r = d_width f \<and> face_height r = d_height f"

definition photo_person_first ::
  "int \<Rightarrow> face \<Rightarrow> database \<Rightarrow> (exn + photo_person option) \<times> database" where
  "photo_person_first pid f s =
     (case round_trip s of
        (Some e, s') \<Rightarrow> (Inl e, s')
      | (None, s') \<Rightarrow> (Inr (find (same_region pid f) (working s')), s'))"

text \<open>\<^verbatim>\<open>PhotoPerson.query.get(photo_person_id)\<close>\<close>

definition photo_person_get ::
  "int \<Rightarrow> database \<Rightarrow> (exn + photo_person option) \<times> database" where
  "photo_person_get i s =
     (case round_trip s of
        (Some e, s') \<Rightarrow> (Inl e, s')
      | (None, s') \<Rightarrow> (Inr (find (\<lambda>r. pp_id r = i) (working s')), s'))"

text \<open>
  \<^verbatim>\<open>db.session.add(photo_person)\<close>: the row joins the session with the next key. The
  statement that writes it goes out with a later query or with the commit, which is
  where a failure of the insert shows.
\<close>

definition session_add :: "photo_person \<Rightarrow> database \<Rightarrow> database" where
  "session_add r s =
     s\<lparr>working := working s @ [r\<lparr>pp_id := pp_seq s\<rparr>], pp_seq := pp_seq s + 1\<rparr>"

text \<open>\<^verbatim>\<open>db.session.commit()\<close>: all of the session's changes or none.\<close>

definition session_commit :: "database \<Rightarrow> (exn + unit) \<times> database" where
  "session_commit s =
     (case round_trip s of
        (Some e, s') \<Rightarrow> (Inl e, s')
      | (None, s') \<Rightarrow> (Inr (), s'\<lparr>committed := working s'\<rparr>))"

text \<open>\<^verbatim>\<open>db.session.rollback()\<close>: the session forgets what it has not committed.\<close>

definition session_rollback :: "database \<Rightarrow> database" where
  "session_rollback s = s\<lparr>working := committed s\<rparr>"

subsection \<open>\<^verbatim>\<open>FaceDetectionService.detect_faces_in_photo\<close>\<close>

definition face_result :: "nat \<times> int \<times> int \<times> int \<times> int \<Rightarrow> face" where
  "face_result = (\<lambda>(i, x, y, w, h).
     \<lparr>d_id = i, d_x = x, d_y = y, d_width = w, d_height = h, d_confidence = 0.8\<rparr>)"

definition detect_faces_in_photo ::
  "service \<Rightarrow> 'img environment \<Rightarrow> string \<Rightarrow> face list" where
  "detect_faces_in_photo svc env photo_path =
     (if \<not> available svc then []
      else
        (case imread env photo_path of
           Inl e \<Rightarrow> []
         | Inr None \<Rightarrow> []
         | Inr (Some img) \<Rightarrow>
             (case cvtColor env img of
                Inl e \<Rightarrow> []
              | Inr gray \<Rightarrow>
                  (case detectMultiScale env gray of
                     Inl e \<Rightarrow> []
                   | Inr faces \<Rightarrow> map face_result (enumerate 0 faces)))))"

subsection \<open>\<^verbatim>\<open>FaceDetectionService.process_photo_for_faces\<close>\<close>

definition new_photo_person :: "int \<Rightarrow> face \<Rightarrow> photo_person" where
  "new_photo_person pid f =
     \<lparr>pp_id = 0, photo_id = pid, person_id = None,
      face_x = d_x f, face_y = d_y f, face_width = d_width f, face_height = d_height f,
      confidence = d_confidence f, verified = False\<rparr>"

text \<open>The loop \<^verbatim>\<open>for face in faces\<close>; an exception leaves it at once.\<close>

fun store_faces :: "int \<Rightarrow> face list \<Rightarrow> database \<Rightarrow> (exn + unit) \<times> database" where
  "store_faces pid [] s = (Inr (), s)"
| "store_faces pid (f # fs) s =
     (case photo_person_first pid f s of
        (Inl e, s') \<Rightarrow> (Inl e, s')
      | (Inr (Some existing), s') \<Rightarrow> store_faces pid fs s'
      | (Inr None, s') \<Rightarrow> store_faces pid fs (session_add (new_photo_person pid f) s'))"

text \<open>The body of the \<^verbatim>\<open>try\<close> block.\<close>

definition process_photo_try ::
  "service \<Rightarrow> 'img environment \<Rightarrow> int \<Rightarrow> database \<Rightarrow> (exn + bool) \<times> database" where
  "process_photo_try svc env pid s =
     (case photo_get pid s of
        (Inl e, s1) \<Rightarrow> (Inl e, s1)
      | (Inr None, s1) \<Rightarrow> (Inr False, s1)
      | (Inr (Some ph), s1) \<Rightarrow>
          (if \<not> path_exists env (file_path ph) then (Inr False, s1)
           else
             (let faces = detect_faces_in_photo svc env (file_path ph) in
              if faces \<noteq> [] then
                (case store_faces pid faces s1 of
                   (Inl e, s2) \<Rightarrow> (Inl e, s2)
                 | (Inr u, s2) \<Rightarrow>
                     (case session_commit s2 of
                        (Inl e, s3) \<Rightarrow> (Inl e, s3)
                      | (Inr u', s3) \<Rightarrow> (Inr True, s3)))
              else (Inr True, s1))))"

definition process_photo_for_faces ::
  "service \<Rightarrow> 'img environment \<Rightarrow> int \<Rightarrow> database \<Rightarrow> bool \<times> database" where
  "process_photo_for_faces svc env pid s =
     (if \<not> available svc then (False, s)
      else
        (case process_photo_try svc env pid s of
           (Inr b, s') \<Rightarrow> (b, s')
         | (Inl e, s') \<Rightarrow> (False, session_rollback s')))"

subsection \<open>\<^verbatim>\<open>FaceDetectionService.tag_face\<close>\<close>

text \<open>
  The two assignments \<^verbatim>\<open>photo_person.person_id = person_id\<close> and
  \<^verbatim>\<open>photo_person.verified = True\<close> on the object the lookup returned, which is the
  first row of the session with that key.
\<close>

fun assign_identity :: "int \<Rightarrow> int \<Rightarrow> photo_person list \<Rightarrow> photo_person list" where
  "assign_identity i p [] = []"
| "assign_identity i p (r # rs) =
     (if pp_id r = i then r\<lparr>person_id := Some p, verified := True\<rparr> # rs
      else r # assign_identity i p rs)"

definition tag_face_try :: "int \<Rightarrow> int \<Rightarrow> database \<Rightarrow> (exn + bool) \<times> database" where
  "tag_face_try photo_person_id p s =
     (case photo_person_get photo_person_id s of
        (Inl e, s1) \<Rightarrow> (Inl e, s1)
      | (Inr None, s1) \<Rightarrow> (Inr False, s1)
      | (Inr (Some r), s1) \<Rightarrow>
          (case session_commit (s1\<lparr>working := assign_identity photo_person_id p (working s1)\<rparr>) of
             (Inl e, s2) \<Rightarrow> (Inl e, s2)
           | (Inr u, s2) \<Rightarrow> (Inr True, s2)))"

definition tag_face :: "int \<Rightarrow> int \<Rightarrow> database \<Rightarrow> bool \<times> database" where
  "tag_face photo_person_id p s =
     (case tag_face_try photo_person_id p s of
        (Inr b, s') \<Rightarrow> (b, s')
      | (Inl e, s') \<Rightarrow> (False, session_rollback s'))"

subsection \<open>\<^verbatim>\<open>FaceDetectionService.get_face_detection_stats\<close>\<close>

text \<open>The dictionary the method returns; the key \<^verbatim>\<open>error\<close> is absent on success.\<close>

record stats =
  total_photos :: nat
  photos_with_faces :: nat
  verified_tags :: nat
  unverified_tags :: nat
  unique_people :: nat
  detection_available :: bool
  error :: "string option"

text \<open>A counting query: one round trip, then the count over what the session sees.\<close>

definition count_query :: "(database \<Rightarrow> nat) \<Rightarrow> database \<Rightarrow> (exn + nat) \<times> database" where
  "count_query q s =
     (case round_trip s of
        (Some e, s') \<Rightarrow> (Inl e, s')
      | (None, s') \<Rightarrow> (Inr (q s'), s'))"

definition q_total_photos :: "int \<Rightarrow> database \<Rightarrow> nat" where
  "q_total_photos uid s = length (filter (\<lambda>p. ph_user_id p = uid) (photos s))"

definition q_photos_with_faces :: "int \<Rightarrow> database \<Rightarrow> nat" where
  "q_photos_with_faces uid s =
     length (remdups
       (concat (map (\<lambda>p. map (\<lambda>r. p) (filter (\<lambda>r. photo_id r = ph_id p) (working s)))
          (filter (\<lambda>p. ph_user_id p = uid) (photos s)))))"

definition q_tags :: "int \<Rightarrow> bool \<Rightarrow> database \<Rightarrow> nat" where
  "q_tags uid v s =
     length (concat (map (\<lambda>r. filter (\<lambda>p. ph_id p = photo_id r \<and> ph_user_id p = uid) (photos s))
       (filter (\<lambda>r. verified r = v) (working s))))"

definition q_unique_people :: "int \<Rightarrow> database \<Rightarrow> nat" where
  "q_unique_people uid s = length (filter (\<lambda>p. pe_user_id p = uid) (persons s))"

definition error_stats :: "exn \<Rightarrow> stats" where
  "error_stats e =
     \<lparr>total_photos = 0, photos_with_faces = 0, verified_tags = 0, unverified_tags = 0,
      unique_people = 0, detection_available = False, error = Some e\<rparr>"

definition get_face_detection_stats :: "service \<Rightarrow> int \<Rightarrow> database \<Rightarrow> stats \<times> database" where
  "get_face_detection_stats svc uid s =
     (case count_query (q_total_photos uid) s of
        (Inl e, s1) \<Rightarrow> (error_stats e, s1)
      | (Inr n1, s1) \<Rightarrow>
     (case count_query (q_photos_with_faces uid) s1 of
        (Inl e, s2) \<Rightarrow> (error_stats e, s2)
      | (Inr n2, s2) \<Rightarrow>
     (case count_query (q_tags uid True) s2 of
        (Inl e, s3) \<Rightarrow> (error_stats e, s3)
      | (Inr n3, s3) \<Rightarrow>
     (case count_query (q_tags uid False) s3 of
        (Inl e, s4) \<Rightarrow> (error_stats e, s4)
      | (Inr n4, s4) \<Rightarrow>
     (case count_query (q_unique_people uid) s4 of
        (Inl e, s5) \<Rightarrow> (error_stats e, s5)
      | (Inr n5, s5) \<Rightarrow>
          (\<lparr>total_photos = n1, photos_with_faces = n2, verified_tags = n3,
            unverified_tags = n4, unique_people = n5,
            detection_available = available svc, error = None\<rparr>, s5))))))"

subsection \<open>\<^verbatim>\<open>AppStorageService.upload_file\<close>\<close>

text \<open>
  The storage service holds \<^verbatim>\<open>self._available\<close> and the module
  \<^verbatim>\<open>replit_object_storage\<close>. The module's \<^verbatim>\<open>upload_file(file, storage_path)\<close> is the
  parameter \<open>upload\<close>: it acts on the object store \<open>'st\<close> and may raise.
  \<^verbatim>\<open>user_id\<close> is \<^verbatim>\<open>Optional[str]\<close>; the test \<^verbatim>\<open>if user_id:\<close> is false for
  \<^verbatim>\<open>None\<close> and for the empty string.
\<close>

record app_storage =
  storage_available :: bool

definition truthy :: "string option \<Rightarrow> bool" where
  "truthy u = (case u of None \<Rightarrow> False | Some v \<Rightarrow> v \<noteq> [])"

definition storage_path :: "string \<Rightarrow> string option \<Rightarrow> string" where
  "storage_path filename user_id =
     (if truthy user_id then ''users/'' @ the user_id @ ''/'' @ filename
      else ''uploads/'' @ filename)"

definition upload_file ::
  "app_storage \<Rightarrow> ('f \<Rightarrow> string \<Rightarrow> 'st \<Rightarrow> (exn + unit) \<times> 'st) \<Rightarrow>
   'f \<Rightarrow> string \<Rightarrow> string option \<Rightarrow> 'st \<Rightarrow> (bool \<times> string) \<times> 'st" where
  "upload_file svc upload file filename user_id st =
     (if \<not> storage_available svc then ((False, ''App storage not available''), st)
      else
        (case upload file (storage_path filename user_id) st of
           (Inr u, st') \<Rightarrow> ((True, storage_path filename user_id), st')
         | (Inl e, st') \<Rightarrow> ((False, e), st')))"

subsection \<open>The invariant of the region store\<close>

text \<open>
  The data model asks of every face region: when no person is set the region is not
  verified, and when a person is set it is verified.
\<close>

definition region_consistent :: "photo_person \<Rightarrow> bool" where
  "region_consistent r \<longleftrightarrow>
     (person_id r = None \<longrightarrow> \<not> verified r) \<and> (person_id r \<noteq> None \<longrightarrow> verified r)"

definition region_invariant :: "photo_person list \<Rightarrow> bool" where
  "region_invariant rs \<longleftrightarrow> list_all region_consistent rs"

subsection \<open>Example inputs\<close>

text \<open>
  A user with three photos: the first decodes and shows two faces, the second exists on
  disk but does not decode, the file of the third is gone. The object store of the
  upload example is a list of the objects written.
\<close>

definition ex_on :: service where
  "ex_on = \<lparr>available = True\<rparr>"

definition ex_off :: service where
  "ex_off = \<lparr>available = False\<rparr>"

definition ex_env :: "nat environment" where
  "ex_env =
     \<lparr>path_exists = (\<lambda>p. p = ''p.jpg'' \<or> p = ''q.jpg''),
      imread = (\<lambda>p. if p = ''p.jpg'' then Inr (Some 0) else Inr None),
      cvtColor = (\<lambda>i. Inr i),
      detectMultiScale = (\<lambda>i. Inr [(10, 10, 50, 50), (100, 10, 50, 50)])\<rparr>"

definition ex_db :: database where
  "ex_db =
     \<lparr>photos = [\<lparr>ph_id = 1, ph_user_id = 7, file_path = ''p.jpg''\<rparr>,
                \<lparr>ph_id = 2, ph_user_id = 7, file_path = ''q.jpg''\<rparr>,
                \<lparr>ph_id = 3, ph_user_id = 7, file_path = ''gone.jpg''\<rparr>],
      persons = [\<lparr>pe_id = 7, pe_user_id = 7, pe_name = ''Ann''\<rparr>],
      committed = [], working = [], pp_seq = 1, script = []\<rparr>"

text \<open>The same environment with a detector that finds no face.\<close>

definition ex_env_no_faces :: "nat environment" where
  "ex_env_no_faces = ex_env\<lparr>detectMultiScale := (\<lambda>i. Inr [])\<rparr>"

text \<open>The database once the two faces of the first photo are stored.\<close>

definition ex_regions :: "photo_person list" where
  "ex_regions =
     [\<lparr>pp_id = 1, photo_id = 1, person_id = None, face_x = 10, face_y = 10,
       face_width = 50, face_height = 50, confidence = 0.8, verified = False\<rparr>,
      \<lparr>pp_id = 2, photo_id = 1, person_id = None, face_x = 100, face_y = 10,
       face_width = 50, face_height = 50, confidence = 0.8, verified = False\<rparr>]"

definition ex_db_faces :: database where
  "ex_db_faces = ex_db\<lparr>committed := ex_regions, working := ex_regions, pp_seq := 3\<rparr>"

definition ex_storage :: app_storage where
  "ex_storage = \<lparr>storage_available = True\<rparr>"

definition ex_upload ::
  "nat \<Rightarrow> string \<Rightarrow> (string \<times> nat) list \<Rightarrow> (exn + unit) \<times> (string \<times> nat) list" where
  "ex_upload file path st = (Inr (), (path, file) # st)"

section \<open>Properties\<close>

subsection \<open>What the session operations leave alone\<close>

lemma round_trip_frame:
  "round_trip s = (x, s') \<Longrightarrow>
     photos s' = photos s \<and> persons s' = persons s \<and> committed s' = committed s \<and>
     working s' = working s \<and> pp_seq s' = pp_seq s"
  by (auto simp: round_trip_def split: list.splits)

lemma photo_person_first_frame:
  "photo_person_first pid f s = (x, s') \<Longrightarrow>
     photos s' = photos s \<and> persons s' = persons s \<and> committed s' = committed s \<and>
     working s' = working s \<and> pp_seq s' = pp_seq s"
  by (auto simp: photo_person_first_def split: prod.splits option.splits dest: round_trip_frame)

lemma photo_person_first_found:
  "photo_person_first pid f s = (Inr x, s') \<Longrightarrow> x = find (same_region pid f) (working s)"
  by (auto simp: photo_person_first_def split: prod.splits option.splits dest: round_trip_frame)

lemma photo_get_frame:
  "photo_get pid s = (x, s') \<Longrightarrow>
     photos s' = photos s \<and> persons s' = persons s \<and> committed s' = committed s \<and>
     working s' = working s \<and> pp_seq s' = pp_seq s"
  by (auto simp: photo_get_def split: prod.splits option.splits dest: round_trip_frame)

lemma photo_get_found:
  "photo_get pid s = (Inr x, s') \<Longrightarrow> x = find (\<lambda>p. ph_id p = pid) (photos s)"
  by (auto simp: photo_get_def split: prod.splits option.splits dest: round_trip_frame)

lemma session_commit_frame:
  "session_commit s = (x, s') \<Longrightarrow>
     photos s' = photos s \<and> persons s' = persons s \<and> working s' = working s \<and>
     pp_seq s' = pp_seq s"
  by (auto simp: session_commit_def split: prod.splits option.splits dest: round_trip_frame)

lemma session_commit_Inl:
  "session_commit s = (Inl e, s') \<Longrightarrow> committed s' = committed s"
  by (auto simp: session_commit_def split: prod.splits option.splits dest: round_trip_frame)

lemma session_commit_Inr:
  "session_commit s = (Inr u, s') \<Longrightarrow> committed s' = working s"
  by (auto simp: session_commit_def split: prod.splits option.splits dest: round_trip_frame)

lemma same_region_new:
  "same_region pid f ((new_photo_person pid f)\<lparr>pp_id := k\<rparr>)"
  by (simp add: same_region_def new_photo_person_def)

lemma store_faces_frame:
  "store_faces pid fs s = (x, s') \<Longrightarrow>
     photos s' = photos s \<and> persons s' = persons s \<and> committed s' = committed s"
proof (induction fs arbitrary: s)
  case Nil
  then show ?case by simp
next
  case (Cons f fs)
  obtain y s1 where first: "photo_person_first pid f s = (y, s1)"
    by (cases "photo_person_first pid f s")
  note fr = photo_person_first_frame [OF first]
  show ?case
  proof (cases y)
    case (Inl e)
    with Cons.prems first fr show ?thesis by simp
  next
    case (Inr found)
    show ?thesis
    proof (cases found)
      case None
      with Cons.prems first Inr
      have "store_faces pid fs (session_add (new_photo_person pid f) s1) = (x, s')"
        by simp
      from Cons.IH [OF this] fr show ?thesis
        by (simp add: session_add_def)
    next
      case (Some existing)
      with Cons.prems first Inr have "store_faces pid fs s1 = (x, s')"
        by simp
      from Cons.IH [OF this] fr show ?thesis by simp
    qed
  qed
qed

lemma store_faces_present:
  "\<forall>f\<in>set fs. \<exists>r\<in>set (working s). same_region pid f r \<Longrightarrow>
   store_faces pid fs s = (x, s') \<Longrightarrow> working s' = working s \<and> pp_seq s' = pp_seq s"
proof (induction fs arbitrary: s)
  case Nil
  then show ?case by simp
next
  case (Cons f fs)
  obtain y s1 where first: "photo_person_first pid f s = (y, s1)"
    by (cases "photo_person_first pid f s")
  note fr = photo_person_first_frame [OF first]
  show ?case
  proof (cases y)
    case (Inl e)
    with Cons.prems first fr show ?thesis by simp
  next
    case (Inr found)
    from Cons.prems(1) have "\<exists>r\<in>set (working s). same_region pid f r"
      by simp
    then have "find (same_region pid f) (working s) \<noteq> None"
      by (auto simp: find_None_iff)
    with photo_person_first_found [of pid f s found s1] first Inr
    obtain existing where found: "found = Some existing"
      by auto
    with Cons.prems first Inr have run: "store_faces pid fs s1 = (x, s')"
      by simp
    from Cons.prems(1) fr
    have "\<forall>f\<in>set fs. \<exists>r\<in>set (working s1). same_region pid f r"
      by simp
    from Cons.IH [OF this run] fr show ?thesis by simp
  qed
qed

lemma store_faces_extends:
  "store_faces pid fs s = (x, s') \<Longrightarrow> \<exists>ys. working s' = working s @ ys"
proof (induction fs arbitrary: s)
  case Nil
  then show ?case by simp
next
  case (Cons f fs)
  obtain y s1 where first: "photo_person_first pid f s = (y, s1)"
    by (cases "photo_person_first pid f s")
  note fr = photo_person_first_frame [OF first]
  show ?case
  proof (cases y)
    case (Inl e)
    with Cons.prems first fr show ?thesis by simp
  next
    case (Inr found)
    show ?thesis
    proof (cases found)
      case None
      with Cons.prems first Inr
      have "store_faces pid fs (session_add (new_photo_person pid f) s1) = (x, s')"
        by simp
      from Cons.IH [OF this] fr show ?thesis
        by (auto simp: session_add_def)
    next
      case (Some existing)
      with Cons.prems first Inr have "store_faces pid fs s1 = (x, s')"
        by simp
      from Cons.IH [OF this] fr show ?thesis by simp
    qed
  qed
qed

lemma store_faces_all_present:
  "store_faces pid fs s = (Inr u, s') \<Longrightarrow>
   \<forall>f\<in>set fs. \<exists>r\<in>set (working s'). same_region pid f r"
proof (induction fs arbitrary: s)
  case Nil
  then show ?case by simp
next
  case (Cons f fs)
  obtain y s1 where first: "photo_person_first pid f s = (y, s1)"
    by (cases "photo_person_first pid f s")
  note fr = photo_person_first_frame [OF first]
  show ?case
  proof (cases y)
    case (Inl e)
    with Cons.prems first show ?thesis by simp
  next
    case (Inr found)
    note fnd = photo_person_first_found [of pid f s found s1]
    show ?thesis
    proof (cases found)
      case None
      with Cons.prems first Inr
      have run: "store_faces pid fs (session_add (new_photo_person pid f) s1) = (Inr u, s')"
        by simp
      from store_faces_extends [OF run] obtain ys where
        "working s' = working (session_add (new_photo_person pid f) s1) @ ys" ..
      then have "(new_photo_person pid f)\<lparr>pp_id := pp_seq s1\<rparr> \<in> set (working s')"
        by (simp add: session_add_def)
      then have "\<exists>r\<in>set (working s'). same_region pid f r"
        using same_region_new by blast
      with Cons.IH [OF run] show ?thesis by simp
    next
      case (Some existing)
      with Cons.prems first Inr have run: "store_faces pid fs s1 = (Inr u, s')"
        by simp
      from Some fnd first Inr have "find (same_region pid f) (working s) = Some existing"
        by simp
      then have "existing \<in> set (working s) \<and> same_region pid f existing"
        by (auto simp: find_Some_iff)
      moreover from store_faces_extends [OF run] fr obtain ys where
        "working s' = working s @ ys" by auto
      ultimately have "\<exists>r\<in>set (working s'). same_region pid f r"
        by auto
      with Cons.IH [OF run] show ?thesis by simp
    qed
  qed
qed

subsection \<open>The outcomes of \<^verbatim>\<open>tag_face\<close>\<close>

lemma photo_person_get_frame:
  "photo_person_get i s = (x, s') \<Longrightarrow>
     photos s' = photos s \<and> persons s' = persons s \<and> committed s' = committed s \<and>
     working s' = working s \<and> pp_seq s' = pp_seq s"
  by (auto simp: photo_person_get_def split: prod.splits option.splits dest: round_trip_frame)

lemma photo_person_get_found:
  "photo_person_get i s = (Inr x, s') \<Longrightarrow> x = find (\<lambda>r. pp_id r = i) (working s)"
  by (auto simp: photo_person_get_def split: prod.splits option.splits dest: round_trip_frame)

lemma assign_identity_split:
  "find (\<lambda>r. pp_id r = i) rs = Some r \<Longrightarrow>
   \<exists>xs ys. rs = xs @ r # ys \<and> (\<forall>x\<in>set xs. pp_id x \<noteq> i) \<and>
     assign_identity i p rs = xs @ r\<lparr>person_id := Some p, verified := True\<rparr> # ys"
proof (induction rs)
  case Nil
  then show ?case by simp
next
  case (Cons a rs)
  show ?case
  proof (cases "pp_id a = i")
    case True
    with Cons.prems have "a = r" by simp
    with True have "a # rs = [] @ r # rs \<and> (\<forall>x\<in>set []. pp_id x \<noteq> i) \<and>
      assign_identity i p (a # rs) = [] @ r\<lparr>person_id := Some p, verified := True\<rparr> # rs"
      by simp
    then show ?thesis by blast
  next
    case False
    with Cons.prems have "find (\<lambda>r. pp_id r = i) rs = Some r" by simp
    from Cons.IH [OF this] obtain xs ys where
      "rs = xs @ r # ys" "\<forall>x\<in>set xs. pp_id x \<noteq> i"
      "assign_identity i p rs = xs @ r\<lparr>person_id := Some p, verified := True\<rparr> # ys"
      by blast
    with False have "a # rs = (a # xs) @ r # ys \<and> (\<forall>x\<in>set (a # xs). pp_id x \<noteq> i) \<and>
      assign_identity i p (a # rs) = (a # xs) @ r\<lparr>person_id := Some p, verified := True\<rparr> # ys"
      by simp
    then show ?thesis by blast
  qed
qed

lemma assign_identity_find:
  "find (\<lambda>r. pp_id r = i) rs = Some r \<Longrightarrow>
   find (\<lambda>r. pp_id r = i) (assign_identity i p rs) =
     Some (r\<lparr>person_id := Some p, verified := True\<rparr>)"
  by (induction rs) auto

lemma assign_identity_invariant:
  "region_invariant rs \<Longrightarrow> region_invariant (assign_identity i p rs)"
  by (induction rs) (auto simp: region_invariant_def region_consistent_def)

lemma tag_face_try_cases:
  "tag_face_try i p s = (x, s') \<Longrightarrow>
     (\<exists>e. x = Inl e \<and> committed s' = committed s) \<or>
     (x = Inr False \<and> find (\<lambda>r. pp_id r = i) (working s) = None \<and>
        committed s' = committed s \<and> working s' = working s) \<or>
     (x = Inr True \<and> committed s' = assign_identity i p (working s) \<and>
        working s' = assign_identity i p (working s) \<and>
        find (\<lambda>r. pp_id r = i) (working s) \<noteq> None)"
proof -
  assume run: "tag_face_try i p s = (x, s')"
  obtain y s1 where get: "photo_person_get i s = (y, s1)"
    by (cases "photo_person_get i s")
  note fr = photo_person_get_frame [OF get]
  show ?thesis
  proof (cases y)
    case (Inl e)
    with run get fr show ?thesis by (auto simp: tag_face_try_def)
  next
    case (Inr found)
    with get have fnd: "found = find (\<lambda>r. pp_id r = i) (working s)"
      by (simp add: photo_person_get_found)
    show ?thesis
    proof (cases found)
      case None
      with run get Inr fr fnd show ?thesis by (auto simp: tag_face_try_def)
    next
      case (Some r)
      with fnd have have_r: "find (\<lambda>r. pp_id r = i) (working s) = Some r"
        by simp
      let ?s2 = "s1\<lparr>working := assign_identity i p (working s1)\<rparr>"
      obtain z s3 where com: "session_commit ?s2 = (z, s3)"
        by (cases "session_commit ?s2")
      note cfr = session_commit_frame [OF com]
      show ?thesis
      proof (cases z)
        case (Inl e)
        with run get Inr Some com have "x = Inl e" "s' = s3"
          by (simp_all add: tag_face_try_def)
        moreover from com Inl have "committed s3 = committed ?s2"
          by (simp add: session_commit_Inl)
        ultimately show ?thesis using fr by auto
      next
        case (Inr u)
        with run get \<open>y = Inr found\<close> Some com have "x = Inr True" "s' = s3"
          by (simp_all add: tag_face_try_def)
        moreover from com Inr have "committed s3 = working ?s2"
          by (simp add: session_commit_Inr)
        ultimately show ?thesis using fr cfr have_r by auto
      qed
    qed
  qed
qed

lemma tag_face_try_frame:
  "tag_face_try i p s = (x, s') \<Longrightarrow> photos s' = photos s \<and> persons s' = persons s"
  by (auto simp: tag_face_try_def split: prod.splits sum.splits option.splits
      dest!: photo_person_get_frame session_commit_frame)

subsection \<open>The outcomes of \<^verbatim>\<open>process_photo_for_faces\<close>\<close>

lemma store_faces_invariant:
  "region_invariant (working s) \<Longrightarrow> store_faces pid fs s = (x, s') \<Longrightarrow>
   region_invariant (working s')"
proof (induction fs arbitrary: s)
  case Nil
  then show ?case by simp
next
  case (Cons f fs)
  obtain y s1 where first: "photo_person_first pid f s = (y, s1)"
    by (cases "photo_person_first pid f s")
  note fr = photo_person_first_frame [OF first]
  show ?case
  proof (cases y)
    case (Inl e)
    with Cons.prems first fr show ?thesis by simp
  next
    case (Inr found)
    show ?thesis
    proof (cases found)
      case None
      with Cons.prems first Inr
      have run: "store_faces pid fs (session_add (new_photo_person pid f) s1) = (x, s')"
        by simp
      from Cons.prems(1) fr
      have "region_invariant (working (session_add (new_photo_person pid f) s1))"
        by (simp add: session_add_def region_invariant_def region_consistent_def
            new_photo_person_def)
      from Cons.IH [OF this run] show ?thesis .
    next
      case (Some existing)
      with Cons.prems first Inr have run: "store_faces pid fs s1 = (x, s')"
        by simp
      from Cons.prems(1) fr have "region_invariant (working s1)" by simp
      from Cons.IH [OF this run] show ?thesis .
    qed
  qed
qed

lemma process_photo_try_frame:
  "process_photo_try svc env pid s = (x, s') \<Longrightarrow>
   photos s' = photos s \<and> persons s' = persons s"
  by (auto simp: process_photo_try_def Let_def
      split: prod.splits sum.splits option.splits if_splits
      dest!: photo_get_frame store_faces_frame session_commit_frame)

lemma process_photo_try_Inl:
  "process_photo_try svc env pid s = (Inl e, s') \<Longrightarrow> committed s' = committed s"
  by (auto simp: process_photo_try_def Let_def
      split: prod.splits sum.splits option.splits if_splits
      dest!: photo_get_frame store_faces_frame session_commit_Inl)

lemma process_photo_try_False:
  "process_photo_try svc env pid s = (Inr False, s') \<Longrightarrow>
   committed s' = committed s \<and> working s' = working s \<and> pp_seq s' = pp_seq s"
  by (auto simp: process_photo_try_def Let_def
      split: prod.splits sum.splits option.splits if_splits
      dest!: photo_get_frame)

lemma process_photo_try_True:
  assumes "process_photo_try svc env pid s = (Inr True, s')"
  shows "\<exists>ph. find (\<lambda>p. ph_id p = pid) (photos s) = Some ph \<and> path_exists env (file_path ph) \<and>
     ((detect_faces_in_photo svc env (file_path ph) = [] \<and>
       committed s' = committed s \<and> working s' = working s \<and> pp_seq s' = pp_seq s) \<or>
      (detect_faces_in_photo svc env (file_path ph) \<noteq> [] \<and> committed s' = working s' \<and>
       (\<forall>f\<in>set (detect_faces_in_photo svc env (file_path ph)).
          \<exists>r\<in>set (working s'). same_region pid f r)))"
proof -
  obtain y s1 where get: "photo_get pid s = (y, s1)"
    by (cases "photo_get pid s")
  note fr = photo_get_frame [OF get]
  from assms get obtain ph where y: "y = Inr (Some ph)"
    by (auto simp: process_photo_try_def split: sum.splits option.splits)
  with get have found: "find (\<lambda>p. ph_id p = pid) (photos s) = Some ph"
    using photo_get_found [of pid s "Some ph" s1] by simp
  from assms get y have ex: "path_exists env (file_path ph)"
    by (auto simp: process_photo_try_def split: if_splits)
  let ?faces = "detect_faces_in_photo svc env (file_path ph)"
  show ?thesis
  proof (cases "?faces = []")
    case True
    with assms get y ex have "s' = s1"
      by (simp add: process_photo_try_def)
    with True fr found ex show ?thesis by auto
  next
    case False
    obtain z s2 where st: "store_faces pid ?faces s1 = (z, s2)"
      by (cases "store_faces pid ?faces s1")
    from assms get y ex False st obtain u where z: "z = Inr u"
      by (auto simp: process_photo_try_def split: sum.splits)
    obtain w s3 where com: "session_commit s2 = (w, s3)"
      by (cases "session_commit s2")
    from assms get y ex False st z com obtain u' where w: "w = Inr u'" and s': "s' = s3"
      by (auto simp: process_photo_try_def split: sum.splits)
    from com w have c3: "committed s3 = working s2"
      by (simp add: session_commit_Inr)
    from session_commit_frame [OF com] have w3: "working s3 = working s2" by simp
    from st z have "\<forall>f\<in>set ?faces. \<exists>r\<in>set (working s2). same_region pid f r"
      by (simp add: store_faces_all_present)
    with False c3 w3 s' found ex show ?thesis by auto
  qed
qed

lemma process_photo_try_settled:
  assumes present: "\<forall>ph. find (\<lambda>p. ph_id p = pid) (photos s) = Some ph \<longrightarrow>
      (\<forall>f\<in>set (detect_faces_in_photo svc env (file_path ph)).
         \<exists>r\<in>set (working s). same_region pid f r)"
    and run: "process_photo_try svc env pid s = (x, s')"
  shows "working s' = working s \<and> pp_seq s' = pp_seq s \<and>
     (committed s' = committed s \<or> committed s' = working s)"
proof -
  obtain y s1 where get: "photo_get pid s = (y, s1)"
    by (cases "photo_get pid s")
  note fr = photo_get_frame [OF get]
  show ?thesis
  proof (cases y)
    case (Inl e)
    with run get fr show ?thesis by (auto simp: process_photo_try_def)
  next
    case (Inr found)
    show ?thesis
    proof (cases found)
      case None
      with run get Inr fr show ?thesis by (auto simp: process_photo_try_def)
    next
      case (Some ph)
      with get Inr have found: "find (\<lambda>p. ph_id p = pid) (photos s) = Some ph"
        using photo_get_found [of pid s "Some ph" s1] by simp
      let ?faces = "detect_faces_in_photo svc env (file_path ph)"
      show ?thesis
      proof (cases "path_exists env (file_path ph) \<and> ?faces \<noteq> []")
        case False
        with run get Inr Some fr show ?thesis
          by (auto simp: process_photo_try_def Let_def split: if_splits)
      next
        case True
        obtain z s2 where st: "store_faces pid ?faces s1 = (z, s2)"
          by (cases "store_faces pid ?faces s1")
        from present found fr
        have "\<forall>f\<in>set ?faces. \<exists>r\<in>set (working s1). same_region pid f r"
          by simp
        from store_faces_present [OF this st] store_faces_frame [OF st] fr
        have s2: "working s2 = working s" "pp_seq s2 = pp_seq s" "committed s2 = committed s"
          by simp_all
        show ?thesis
        proof (cases z)
          case (Inl e)
          with run get Inr Some True st have "s' = s2"
            by (simp add: process_photo_try_def)
          with s2 show ?thesis by simp
        next
          case (Inr u)
          obtain w s3 where com: "session_commit s2 = (w, s3)"
            by (cases "session_commit s2")
          from run get \<open>y = Inr found\<close> Some True st Inr com have s': "s' = s3"
            by (auto simp: process_photo_try_def split: sum.splits)
          from session_commit_frame [OF com] s2
          have "working s3 = working s" "pp_seq s3 = pp_seq s" by simp_all
          moreover have "committed s3 = committed s \<or> committed s3 = working s"
            using com s2 by (cases w) (auto dest: session_commit_Inl session_commit_Inr)
          ultimately show ?thesis using s' by simp
        qed
      qed
    qed
  qed
qed

lemma process_photo_try_invariant:
  assumes "region_invariant (working s)" "region_invariant (committed s)"
    and run: "process_photo_try svc env pid s = (x, s')"
  shows "region_invariant (working s') \<and> region_invariant (committed s')"
proof -
  obtain y s1 where get: "photo_get pid s = (y, s1)"
    by (cases "photo_get pid s")
  note fr = photo_get_frame [OF get]
  show ?thesis
  proof (cases y)
    case (Inl e)
    with run get fr assms(1,2) show ?thesis by (auto simp: process_photo_try_def)
  next
    case (Inr found)
    show ?thesis
    proof (cases found)
      case None
      with run get Inr fr assms(1,2) show ?thesis by (auto simp: process_photo_try_def)
    next
      case (Some ph)
      let ?faces = "detect_faces_in_photo svc env (file_path ph)"
      show ?thesis
      proof (cases "path_exists env (file_path ph) \<and> ?faces \<noteq> []")
        case False
        with run get Inr Some fr assms(1,2) show ?thesis
          by (auto simp: process_photo_try_def Let_def split: if_splits)
      next
        case True
        obtain z s2 where st: "store_faces pid ?faces s1 = (z, s2)"
          by (cases "store_faces pid ?faces s1")
        from assms(1) fr have "region_invariant (working s1)" by simp
        from store_faces_invariant [OF this st]
        have w2: "region_invariant (working s2)" .
        from store_faces_frame [OF st] fr assms(2)
        have c2: "region_invariant (committed s2)" by simp
        show ?thesis
        proof (cases z)
          case (Inl e)
          with run get Inr Some True st have "s' = s2"
            by (simp add: process_photo_try_def)
          with w2 c2 show ?thesis by simp
        next
          case (Inr u)
          obtain w s3 where com: "session_commit s2 = (w, s3)"
            by (cases "session_commit s2")
          from run get \<open>y = Inr found\<close> Some True st Inr com have s': "s' = s3"
            by (auto simp: process_photo_try_def split: sum.splits)
          from session_commit_frame [OF com] w2
          have "region_invariant (working s3)" by simp
          moreover have "region_invariant (committed s3)"
            using com w2 c2 by (cases w) (auto dest: session_commit_Inl session_commit_Inr)
          ultimately show ?thesis using s' by simp
        qed
      qed
    qed
  qed
qed

subsection \<open>Unfolding the model on the example inputs\<close>

lemmas ex_defs = ex_on_def ex_off_def ex_env_def ex_db_def ex_regions_def ex_db_faces_def

lemmas run_defs = process_photo_for_faces_def process_photo_try_def photo_get_def
  round_trip_def detect_faces_in_photo_def face_result_def photo_person_first_def
  session_add_def new_photo_person_def same_region_def session_commit_def
  session_rollback_def tag_face_def tag_face_try_def photo_person_get_def

subsection \<open>Detection engine unavailable\<close>

text \<open>
  Claim C2. When the capability probe reports the detection engine unavailable,
  \<^verbatim>\<open>detect_faces_in_photo\<close> returns the empty list for every path, and
  \<^verbatim>\<open>process_photo_for_faces\<close> returns false and hands back the database as it was:
  no row read or written, and no round trip taken from the script.
\<close>

theorem unavailable_detects_nothing:
  "\<not> available svc \<Longrightarrow>
   detect_faces_in_photo svc env photo_path = [] \<and>
   process_photo_for_faces svc env pid s = (False, s)"
  by (simp add: detect_faces_in_photo_def process_photo_for_faces_def)

theorem unavailable_detects_nothing_witness:
  "\<not> available ex_off \<and>
   detect_faces_in_photo ex_off ex_env ''p.jpg'' = [] \<and>
   process_photo_for_faces ex_off ex_env 1 ex_db = (False, ex_db)"
  using unavailable_detects_nothing [of ex_off ex_env "''p.jpg''" 1 ex_db]
  by (simp add: ex_off_def)

subsection \<open>Statistics when a query fails\<close>

lemma count_query_cases:
  "count_query q s =
     (case script s of
        [] \<Rightarrow> (Inr (q s), s)
      | None # fs \<Rightarrow> (Inr (q (s\<lparr>script := fs\<rparr>)), s\<lparr>script := fs\<rparr>)
      | Some e # fs \<Rightarrow> (Inl e, s\<lparr>script := fs\<rparr>))"
  by (simp add: count_query_def round_trip_def split: list.splits option.splits)

text \<open>
  Claim C8. \<^verbatim>\<open>get_face_detection_stats\<close> runs five queries. When one of them fails,
  that is when one of the next five round trips of the script raises, the method returns
  the dictionary with every count zero, \<^verbatim>\<open>detection_available\<close> false and the message
  of the exception under \<^verbatim>\<open>error\<close>, whatever the user and whether or not the
  detection engine is available.
\<close>

theorem stats_query_failure:
  assumes "Some e \<in> set (take 5 (script s))"
  shows "\<exists>m. Some m \<in> set (take 5 (script s)) \<and>
           fst (get_face_detection_stats svc uid s) =
             \<lparr>total_photos = 0, photos_with_faces = 0, verified_tags = 0,
              unverified_tags = 0, unique_people = 0, detection_available = False,
              error = Some m\<rparr>"
  using assms
  by (auto simp: get_face_detection_stats_def count_query_cases error_stats_def
      split: list.splits option.splits)

theorem stats_query_failure_witness:
  "Some ''connection lost'' \<in>
     set (take 5 (script (ex_db\<lparr>script := [None, Some ''connection lost'']\<rparr>))) \<and>
   fst (get_face_detection_stats ex_on 7 (ex_db\<lparr>script := [None, Some ''connection lost'']\<rparr>)) =
     \<lparr>total_photos = 0, photos_with_faces = 0, verified_tags = 0,
      unverified_tags = 0, unique_people = 0, detection_available = False,
      error = Some ''connection lost''\<rparr>"
  using stats_query_failure [of "''connection lost''"
      "ex_db\<lparr>script := [None, Some ''connection lost'']\<rparr>" ex_on 7]
  by (simp add: ex_db_def)

subsection \<open>Tagging a face\<close>

text \<open>
  With the region in the session and no failure of the two round trips, the lookup and
  the commit, \<^verbatim>\<open>tag_face\<close> returns true.
\<close>

lemma tag_face_succeeds:
  "find (\<lambda>r. pp_id r = i) (working s) = Some r \<Longrightarrow> script s = [] \<Longrightarrow> fst (tag_face i p s)"
  by (simp add: tag_face_def tag_face_try_def photo_person_get_def session_commit_def
      round_trip_def)

text \<open>
  Claim C4. Let the region \<open>r\<close> be the one \<^verbatim>\<open>tag_face\<close> finds under the given key,
  whatever its person and its verified flag are. After a successful call the stored
  region under that key is \<open>r\<close> with \<^verbatim>\<open>person_id\<close> set to the given person and
  \<^verbatim>\<open>verified\<close> true, every other field as before; the stored table is the table of the
  session with this one row replaced, so a second tagging overwrites the first and no
  other region changes.
\<close>

theorem tag_face_sets_identity:
  assumes found: "find (\<lambda>r. pp_id r = i) (working s) = Some r"
    and ok: "fst (tag_face i p s)"
  shows "find (\<lambda>r. pp_id r = i) (committed (snd (tag_face i p s))) =
           Some (r\<lparr>person_id := Some p, verified := True\<rparr>) \<and>
         (\<exists>xs ys. working s = xs @ r # ys \<and>
            committed (snd (tag_face i p s)) =
              xs @ r\<lparr>person_id := Some p, verified := True\<rparr> # ys)"
proof -
  obtain x s' where run: "tag_face_try i p s = (x, s')"
    by (cases "tag_face_try i p s")
  with ok have x: "x = Inr True" and res: "snd (tag_face i p s) = s'"
    by (auto simp: tag_face_def split: sum.splits)
  from tag_face_try_cases [OF run] x
  have com: "committed s' = assign_identity i p (working s)"
    by auto
  from assign_identity_split [OF found, of p] obtain xs ys where
    "working s = xs @ r # ys"
    "assign_identity i p (working s) = xs @ r\<lparr>person_id := Some p, verified := True\<rparr> # ys"
    by blast
  with com res assign_identity_find [OF found, of p] show ?thesis
    by auto
qed

theorem tag_face_sets_identity_witness:
  "find (\<lambda>r. pp_id r = 1) (working ex_db_faces) = Some (ex_regions ! 0) \<and>
   fst (tag_face 1 7 ex_db_faces) \<and>
   committed (snd (tag_face 1 7 ex_db_faces)) =
     [\<lparr>pp_id = 1, photo_id = 1, person_id = Some 7, face_x = 10, face_y = 10,
       face_width = 50, face_height = 50, confidence = 0.8, verified = True\<rparr>,
      \<lparr>pp_id = 2, photo_id = 1, person_id = None, face_x = 100, face_y = 10,
       face_width = 50, face_height = 50, confidence = 0.8, verified = False\<rparr>]"
  using tag_face_sets_identity [of 1 ex_db_faces "ex_regions ! 0" 7]
  by (simp add: ex_defs run_defs)

text \<open>
  Claim C5. When no region has the given key, \<^verbatim>\<open>tag_face\<close> returns false and the
  stored table of regions is the one before the call, so no person and no verified flag
  has changed. The session keeps its table too, unless the lookup itself raised and the
  rollback set the session back to the stored table.
\<close>

theorem tag_face_unknown_region:
  assumes "find (\<lambda>r. pp_id r = i) (working s) = None"
  shows "\<not> fst (tag_face i p s) \<and>
         committed (snd (tag_face i p s)) = committed s \<and>
         (working (snd (tag_face i p s)) = working s \<or>
          working (snd (tag_face i p s)) = committed s)"
proof -
  obtain x s' where run: "tag_face_try i p s = (x, s')"
    by (cases "tag_face_try i p s")
  from tag_face_try_cases [OF run] assms
  consider e where "x = Inl e" "committed s' = committed s"
    | "x = Inr False" "committed s' = committed s" "working s' = working s"
    by auto
  then show ?thesis
  proof cases
    case 1
    with run show ?thesis by (simp add: tag_face_def session_rollback_def)
  next
    case 2
    with run show ?thesis by (simp add: tag_face_def)
  qed
qed

theorem tag_face_unknown_region_witness:
  "find (\<lambda>r. pp_id r = 9) (working ex_db_faces) = None \<and>
   tag_face 9 7 ex_db_faces = (False, ex_db_faces)"
  using tag_face_unknown_region [of 9 ex_db_faces 7]
  by (simp add: ex_defs run_defs)

subsection \<open>Persistence errors\<close>

text \<open>
  Claim C3. A persistence error during a call is an exception raised inside the
  \<^verbatim>\<open>try\<close> block: by the lookup of the photo, by the lookup of a region, by the commit.
  When that happens in \<^verbatim>\<open>process_photo_for_faces\<close>, or in \<^verbatim>\<open>tag_face\<close>, the call
  returns false, the stored table of regions is the one before the call, and the
  session is back on the stored table: nothing the call added or assigned survives, and
  the caller may retry.
\<close>

theorem persistence_error_rolls_back:
  "(available svc \<and> fst (process_photo_try svc env pid s) = Inl e \<longrightarrow>
      \<not> fst (process_photo_for_faces svc env pid s) \<and>
      committed (snd (process_photo_for_faces svc env pid s)) = committed s \<and>
      working (snd (process_photo_for_faces svc env pid s)) = committed s) \<and>
   (fst (tag_face_try i p s) = Inl e \<longrightarrow>
      \<not> fst (tag_face i p s) \<and>
      committed (snd (tag_face i p s)) = committed s \<and>
      working (snd (tag_face i p s)) = committed s)"
proof (intro conjI impI)
  assume a: "available svc \<and> fst (process_photo_try svc env pid s) = Inl e"
  then obtain s' where run: "process_photo_try svc env pid s = (Inl e, s')"
    by (cases "process_photo_try svc env pid s") auto
  from process_photo_try_Inl [OF run] have c: "committed s' = committed s" .
  from a run c show "\<not> fst (process_photo_for_faces svc env pid s)"
    and "committed (snd (process_photo_for_faces svc env pid s)) = committed s"
    and "working (snd (process_photo_for_faces svc env pid s)) = committed s"
    by (simp_all add: process_photo_for_faces_def session_rollback_def)
next
  assume a: "fst (tag_face_try i p s) = Inl e"
  then obtain s' where run: "tag_face_try i p s = (Inl e, s')"
    by (cases "tag_face_try i p s") auto
  from tag_face_try_cases [OF run] have c: "committed s' = committed s" by auto
  from run c show "\<not> fst (tag_face i p s)"
    and "committed (snd (tag_face i p s)) = committed s"
    and "working (snd (tag_face i p s)) = committed s"
    by (simp_all add: tag_face_def session_rollback_def)
qed

theorem persistence_error_rolls_back_witness:
  "available ex_on \<and>
   fst (process_photo_try ex_on ex_env 1 (ex_db\<lparr>script := [None, None, Some ''db down'']\<rparr>)) =
     Inl ''db down'' \<and>
   \<not> fst (process_photo_for_faces ex_on ex_env 1
          (ex_db\<lparr>script := [None, None, Some ''db down'']\<rparr>)) \<and>
   committed (snd (process_photo_for_faces ex_on ex_env 1
          (ex_db\<lparr>script := [None, None, Some ''db down'']\<rparr>))) = [] \<and>
   fst (tag_face_try 1 7 (ex_db_faces\<lparr>script := [None, Some ''db down'']\<rparr>)) = Inl ''db down'' \<and>
   \<not> fst (tag_face 1 7 (ex_db_faces\<lparr>script := [None, Some ''db down'']\<rparr>)) \<and>
   committed (snd (tag_face 1 7 (ex_db_faces\<lparr>script := [None, Some ''db down'']\<rparr>))) =
     ex_regions"
  using persistence_error_rolls_back [of ex_on ex_env 1
      "ex_db\<lparr>script := [None, None, Some ''db down'']\<rparr>" "''db down''" 1 7]
    persistence_error_rolls_back [of ex_on ex_env 1
      "ex_db_faces\<lparr>script := [None, Some ''db down'']\<rparr>" "''db down''" 1 7]
  by (simp add: ex_defs run_defs enumerate_eq_zip upt_rec)

subsection \<open>The invariant is preserved\<close>

text \<open>
  Claim C6. If every region, stored or in the session, is unverified when it has no
  person and verified when it has one, the same holds after
  \<^verbatim>\<open>process_photo_for_faces\<close> and after \<^verbatim>\<open>tag_face\<close>, whatever they return:
  detection adds only regions without a person and unverified, and tagging sets the
  person and the verified flag together.
\<close>

theorem region_invariant_preserved:
  assumes "region_invariant (working s)" and "region_invariant (committed s)"
  shows "region_invariant (working (snd (process_photo_for_faces svc env pid s))) \<and>
         region_invariant (committed (snd (process_photo_for_faces svc env pid s))) \<and>
         region_invariant (working (snd (tag_face i p s))) \<and>
         region_invariant (committed (snd (tag_face i p s)))"
proof -
  have process: "region_invariant (working (snd (process_photo_for_faces svc env pid s))) \<and>
      region_invariant (committed (snd (process_photo_for_faces svc env pid s)))"
  proof (cases "available svc")
    case False
    with assms show ?thesis by (simp add: process_photo_for_faces_def)
  next
    case True
    obtain x s' where run: "process_photo_try svc env pid s = (x, s')"
      by (cases "process_photo_try svc env pid s")
    from process_photo_try_invariant [OF assms run] True run show ?thesis
      by (cases x) (simp_all add: process_photo_for_faces_def session_rollback_def)
  qed
  have tag: "region_invariant (working (snd (tag_face i p s))) \<and>
      region_invariant (committed (snd (tag_face i p s)))"
  proof -
    obtain x s' where run: "tag_face_try i p s = (x, s')"
      by (cases "tag_face_try i p s")
    have c: "region_invariant (committed s')"
      using tag_face_try_cases [OF run] assms
      by (auto simp: assign_identity_invariant)
    have w: "x = Inr b \<Longrightarrow> region_invariant (working s')" for b
      using tag_face_try_cases [OF run] assms
      by (auto simp: assign_identity_invariant)
    from run c w show ?thesis
      by (cases x) (simp_all add: tag_face_def session_rollback_def)
  qed
  from process tag show ?thesis by simp
qed

theorem region_invariant_preserved_witness:
  "region_invariant (working ex_db) \<and> region_invariant (committed ex_db) \<and>
   region_invariant (committed (snd (process_photo_for_faces ex_on ex_env 1 ex_db))) \<and>
   committed (snd (process_photo_for_faces ex_on ex_env 1 ex_db)) = ex_regions \<and>
   region_invariant (working ex_db_faces) \<and> region_invariant (committed ex_db_faces) \<and>
   region_invariant (committed (snd (tag_face 1 7 ex_db_faces))) \<and>
   committed (snd (tag_face 1 7 ex_db_faces)) =
     [(ex_regions ! 0)\<lparr>person_id := Some 7, verified := True\<rparr>, ex_regions ! 1]"
  using region_invariant_preserved [of ex_db ex_on ex_env 1 1 7]
    region_invariant_preserved [of ex_db_faces ex_on ex_env 1 1 7]
  by (simp add: ex_defs run_defs enumerate_eq_zip upt_rec region_invariant_def
      region_consistent_def)

subsection \<open>Processing a photo twice\<close>

text \<open>Without a failing round trip the loop over the faces runs to its end.\<close>

lemma store_faces_no_fault:
  "script s = [] \<Longrightarrow> \<exists>s'. store_faces pid fs s = (Inr (), s') \<and> script s' = []"
proof (induction fs arbitrary: s)
  case Nil
  then show ?case by simp
next
  case (Cons f fs)
  from Cons.prems have first:
    "photo_person_first pid f s = (Inr (find (same_region pid f) (working s)), s)"
    by (simp add: photo_person_first_def round_trip_def)
  show ?case
  proof (cases "find (same_region pid f) (working s)")
    case None
    from Cons.prems have "script (session_add (new_photo_person pid f) s) = []"
      by (simp add: session_add_def)
    from Cons.IH [OF this] first None show ?thesis by simp
  next
    case (Some existing)
    from Cons.IH [OF Cons.prems] first Some show ?thesis by simp
  qed
qed

lemma process_photo_for_faces_True:
  "process_photo_for_faces svc env pid s = (True, s') \<Longrightarrow>
   available svc \<and> process_photo_try svc env pid s = (Inr True, s')"
  by (auto simp: process_photo_for_faces_def split: if_splits prod.splits sum.splits)

lemma process_photo_try_no_fault:
  assumes "script s = []"
    and "find (\<lambda>p. ph_id p = pid) (photos s) = Some ph"
    and "path_exists env (file_path ph)"
  shows "fst (process_photo_try svc env pid s) = Inr True"
proof -
  from assms(1,2) have get: "photo_get pid s = (Inr (Some ph), s)"
    by (simp add: photo_get_def round_trip_def)
  let ?faces = "detect_faces_in_photo svc env (file_path ph)"
  from store_faces_no_fault [OF assms(1), of pid ?faces] obtain s2 where
    st: "store_faces pid ?faces s = (Inr (), s2)" and s2: "script s2 = []"
    by blast
  from s2 have "session_commit s2 = (Inr (), s2\<lparr>committed := working s2\<rparr>)"
    by (simp add: session_commit_def round_trip_def)
  with get st assms(3) show ?thesis
    by (simp add: process_photo_try_def Let_def)
qed

text \<open>
  Claim C1. After a run of \<^verbatim>\<open>process_photo_for_faces\<close> that returned true, a second
  run on the same photo in the same environment, where the detector yields the same
  candidates, inserts nothing: the stored table of regions is the one the first run
  left, no primary key is drawn (the session added no row), and the session keeps its
  table, or is back on the stored one when the second run failed and rolled back, since
  every candidate's rectangle is found for that photo and skipped. When no round trip
  fails, the second run returns true.
\<close>

theorem reprocessing_inserts_nothing:
  assumes first: "process_photo_for_faces svc env pid s = (True, s1)"
    and second: "process_photo_for_faces svc env pid s1 = (b, s2)"
  shows "committed s2 = committed s1 \<and> pp_seq s2 = pp_seq s1 \<and>
         (working s2 = working s1 \<or> working s2 = committed s1) \<and>
         (script s1 = [] \<longrightarrow> b)"
proof -
  from process_photo_for_faces_True [OF first]
  have av: "available svc" and try1: "process_photo_try svc env pid s = (Inr True, s1)"
    by simp_all
  from process_photo_try_frame [OF try1] have ph1: "photos s1 = photos s"
    by simp
  from process_photo_try_True [OF try1] obtain ph where
    found: "find (\<lambda>p. ph_id p = pid) (photos s) = Some ph"
    and ex: "path_exists env (file_path ph)"
    and alt: "(detect_faces_in_photo svc env (file_path ph) = [] \<and>
         committed s1 = committed s \<and> working s1 = working s \<and> pp_seq s1 = pp_seq s) \<or>
       (detect_faces_in_photo svc env (file_path ph) \<noteq> [] \<and> committed s1 = working s1 \<and>
        (\<forall>f\<in>set (detect_faces_in_photo svc env (file_path ph)).
           \<exists>r\<in>set (working s1). same_region pid f r))"
    by blast
  let ?faces = "detect_faces_in_photo svc env (file_path ph)"
  from alt have present: "\<forall>f\<in>set ?faces. \<exists>r\<in>set (working s1). same_region pid f r"
    by auto
  with found ph1
  have settled: "\<forall>ph'. find (\<lambda>p. ph_id p = pid) (photos s1) = Some ph' \<longrightarrow>
      (\<forall>f\<in>set (detect_faces_in_photo svc env (file_path ph')).
         \<exists>r\<in>set (working s1). same_region pid f r)"
    by simp
  obtain x t where try2: "process_photo_try svc env pid s1 = (x, t)"
    by (cases "process_photo_try svc env pid s1")
  from process_photo_try_settled [OF settled try2]
  have wt: "working t = working s1" and qt: "pp_seq t = pp_seq s1"
    and ct': "committed t = committed s1 \<or> committed t = working s1"
    by simp_all
  have ct: "committed t = committed s1"
  proof (cases "?faces = []")
    case False
    with alt have "committed s1 = working s1" by simp
    with ct' show ?thesis by auto
  next
    case True
    show ?thesis
    proof (cases x)
      case (Inl e)
      with try2 show ?thesis by (simp add: process_photo_try_Inl)
    next
      case (Inr r)
      show ?thesis
      proof (cases r)
        case False
        with try2 Inr show ?thesis by (simp add: process_photo_try_False)
      next
        case r: True
        from try2 Inr r have "process_photo_try svc env pid s1 = (Inr True, t)"
          by simp
        from process_photo_try_True [OF this] found ph1 True show ?thesis
          by auto
      qed
    qed
  qed
  have res: "committed s2 = committed s1 \<and> pp_seq s2 = pp_seq s1 \<and>
      (working s2 = working s1 \<or> working s2 = committed s1)"
    using second av try2 wt qt ct
    by (cases x) (auto simp: process_photo_for_faces_def session_rollback_def)
  have "b" if "script s1 = []"
  proof -
    from process_photo_try_no_fault [OF that, of pid ph env svc] found ph1 ex
    have "fst (process_photo_try svc env pid s1) = Inr True" by simp
    with second av show ?thesis
      by (auto simp: process_photo_for_faces_def split: prod.splits sum.splits)
  qed
  with res show ?thesis by simp
qed

theorem reprocessing_inserts_nothing_witness:
  "process_photo_for_faces ex_on ex_env 1 ex_db = (True, ex_db_faces) \<and>
   process_photo_for_faces ex_on ex_env 1 ex_db_faces = (True, ex_db_faces) \<and>
   committed ex_db = [] \<and> committed ex_db_faces = ex_regions \<and> script ex_db_faces = []"
  using reprocessing_inserts_nothing [of ex_on ex_env 1 ex_db ex_db_faces True ex_db_faces]
  by (simp add: ex_defs run_defs enumerate_eq_zip upt_rec)

subsection \<open>Photos without faces\<close>

text \<open>
  Claim C9. With the detection engine available, for a photo that the lookup returns
  and whose file exists, when the detection yields no face,
  \<^verbatim>\<open>process_photo_for_faces\<close> returns true and inserts nothing: the stored table, the
  table of the session and the next primary key are those before the call.
\<close>

theorem no_faces_is_success:
  assumes "available svc"
    and "fst (photo_get pid s) = Inr (Some ph)"
    and "path_exists env (file_path ph)"
    and "detect_faces_in_photo svc env (file_path ph) = []"
  shows "fst (process_photo_for_faces svc env pid s) \<and>
         committed (snd (process_photo_for_faces svc env pid s)) = committed s \<and>
         working (snd (process_photo_for_faces svc env pid s)) = working s \<and>
         pp_seq (snd (process_photo_for_faces svc env pid s)) = pp_seq s"
proof -
  obtain s1 where get: "photo_get pid s = (Inr (Some ph), s1)"
    using assms(2) by (cases "photo_get pid s") auto
  from get assms(3,4) have "process_photo_try svc env pid s = (Inr True, s1)"
    by (simp add: process_photo_try_def)
  with assms(1) have "process_photo_for_faces svc env pid s = (True, s1)"
    by (simp add: process_photo_for_faces_def)
  with photo_get_frame [OF get] show ?thesis by simp
qed

theorem no_faces_is_success_witness:
  "available ex_on \<and>
   fst (photo_get 1 ex_db) = Inr (Some \<lparr>ph_id = 1, ph_user_id = 7, file_path = ''p.jpg''\<rparr>) \<and>
   path_exists ex_env_no_faces ''p.jpg'' \<and>
   detect_faces_in_photo ex_on ex_env_no_faces ''p.jpg'' = [] \<and>
   process_photo_for_faces ex_on ex_env_no_faces 1 ex_db = (True, ex_db)"
  using no_faces_is_success [of ex_on 1 ex_db
      "\<lparr>ph_id = 1, ph_user_id = 7, file_path = ''p.jpg''\<rparr>" ex_env_no_faces]
  by (simp add: ex_defs run_defs ex_env_no_faces_def)

subsection \<open>Unreadable and missing files\<close>

text \<open>
  Claim C7, as stated, promises success of \<^verbatim>\<open>process_photo_for_faces\<close> also for a
  photo whose file is missing on disk. The method tests \<^verbatim>\<open>os.path.exists\<close> before it
  detects, and returns false when the file is not there: the third photo of the example
  is in the database, its file is gone, no round trip fails, and the call returns false.
\<close>

theorem missing_file_counterexample:
  "available ex_on \<and>
   fst (photo_get 3 ex_db) = Inr (Some \<lparr>ph_id = 3, ph_user_id = 7, file_path = ''gone.jpg''\<rparr>) \<and>
   \<not> path_exists ex_env ''gone.jpg'' \<and>
   process_photo_for_faces ex_on ex_env 3 ex_db = (False, ex_db)"
  by (simp add: ex_defs run_defs)

text \<open>
  Claim C7, amended. With the detection engine available and the photo returned by the
  lookup: when the file exists on disk but \<^verbatim>\<open>imread\<close> yields no image (it returns
  \<^verbatim>\<open>None\<close> or raises), the detection yields no face and
  \<^verbatim>\<open>process_photo_for_faces\<close> returns true, with the stored table and the session
  as before; the failure to read does not leave the method as an exception. When the
  file is missing on disk the method returns false, again with the stored table and
  the session as before.
\<close>

theorem undecodable_file_is_success:
  assumes "available svc"
    and "fst (photo_get pid s) = Inr (Some ph)"
  shows "(path_exists env (file_path ph) \<and>
            (\<forall>img. imread env (file_path ph) \<noteq> Inr (Some img)) \<longrightarrow>
          detect_faces_in_photo svc env (file_path ph) = [] \<and>
          fst (process_photo_for_faces svc env pid s) \<and>
          committed (snd (process_photo_for_faces svc env pid s)) = committed s \<and>
          working (snd (process_photo_for_faces svc env pid s)) = working s) \<and>
         (\<not> path_exists env (file_path ph) \<longrightarrow>
          \<not> fst (process_photo_for_faces svc env pid s) \<and>
          committed (snd (process_photo_for_faces svc env pid s)) = committed s \<and>
          working (snd (process_photo_for_faces svc env pid s)) = working s)"
proof -
  obtain s1 where get: "photo_get pid s = (Inr (Some ph), s1)"
    using assms(2) by (cases "photo_get pid s") auto
  note fr = photo_get_frame [OF get]
  have readable: "detect_faces_in_photo svc env (file_path ph) = []"
    if "\<forall>img. imread env (file_path ph) \<noteq> Inr (Some img)"
    using that by (auto simp: detect_faces_in_photo_def split: sum.splits option.splits)
  have a: "process_photo_for_faces svc env pid s = (True, s1)"
    if "path_exists env (file_path ph)"
      and "\<forall>img. imread env (file_path ph) \<noteq> Inr (Some img)"
    using that readable get assms(1)
    by (simp add: process_photo_for_faces_def process_photo_try_def)
  have b: "process_photo_for_faces svc env pid s = (False, s1)"
    if "\<not> path_exists env (file_path ph)"
    using that get assms(1)
    by (simp add: process_photo_for_faces_def process_photo_try_def)
  from a b readable fr show ?thesis by auto
qed

theorem undecodable_file_is_success_witness:
  "available ex_on \<and>
   fst (photo_get 2 ex_db) = Inr (Some \<lparr>ph_id = 2, ph_user_id = 7, file_path = ''q.jpg''\<rparr>) \<and>
   path_exists ex_env ''q.jpg'' \<and> imread ex_env ''q.jpg'' = Inr None \<and>
   process_photo_for_faces ex_on ex_env 2 ex_db = (True, ex_db) \<and>
   fst (photo_get 3 ex_db) = Inr (Some \<lparr>ph_id = 3, ph_user_id = 7, file_path = ''gone.jpg''\<rparr>) \<and>
   \<not> path_exists ex_env ''gone.jpg'' \<and>
   \<not> fst (process_photo_for_faces ex_on ex_env 3 ex_db)"
  using undecodable_file_is_success [of ex_on 2 ex_db
      "\<lparr>ph_id = 2, ph_user_id = 7, file_path = ''q.jpg''\<rparr>" ex_env]
    undecodable_file_is_success [of ex_on 3 ex_db
      "\<lparr>ph_id = 3, ph_user_id = 7, file_path = ''gone.jpg''\<rparr>" ex_env]
  by (simp add: ex_defs run_defs)

subsection \<open>Uploading a file to the app storage\<close>

text \<open>
  Claim C10, as stated, promises the path \<^verbatim>\<open>users/{user_id}/{filename}\<close> whenever a
  user id is supplied. The method tests \<^verbatim>\<open>if user_id:\<close>, so the empty string, which
  is a value of \<^verbatim>\<open>Optional[str]\<close>, goes to \<^verbatim>\<open>uploads/\<close> like \<^verbatim>\<open>None\<close>.
\<close>

theorem upload_file_empty_user_id_counterexample:
  "fst (upload_file ex_storage ex_upload 5 ''a.jpg'' (Some []) []) = (True, ''uploads/a.jpg'') \<and>
   fst (upload_file ex_storage ex_upload 5 ''a.jpg'' (Some []) []) \<noteq>
     (True, ''users/'' @ [] @ ''/'' @ ''a.jpg'')"
  by (simp add: upload_file_def storage_path_def truthy_def ex_storage_def ex_upload_def)

text \<open>
  Claim C10, amended. When the storage backend is available and the upload to the chosen
  path does not raise, \<^verbatim>\<open>upload_file\<close> returns true with the path
  \<^verbatim>\<open>users/{user_id}/{filename}\<close> if a non-empty user id was supplied, and with
  \<^verbatim>\<open>uploads/{filename}\<close> if the user id is \<^verbatim>\<open>None\<close> or empty; the object store is
  what the upload made of it. When the backend is unavailable it returns false with the
  message \<^verbatim>\<open>App storage not available\<close> and the object store untouched, for every
  behaviour of the backend's upload.
\<close>

theorem upload_file_paths:
  "(storage_available svc \<and> user_id = Some u \<and> u \<noteq> [] \<and>
      fst (upload file (''users/'' @ u @ ''/'' @ filename) st) = Inr ()
    \<longrightarrow> upload_file svc upload file filename user_id st =
          ((True, ''users/'' @ u @ ''/'' @ filename),
           snd (upload file (''users/'' @ u @ ''/'' @ filename) st))) \<and>
   (storage_available svc \<and> (user_id = None \<or> user_id = Some []) \<and>
      fst (upload file (''uploads/'' @ filename) st) = Inr ()
    \<longrightarrow> upload_file svc upload file filename user_id st =
          ((True, ''uploads/'' @ filename), snd (upload file (''uploads/'' @ filename) st))) \<and>
   (\<not> storage_available svc
    \<longrightarrow> upload_file svc upload file filename user_id st =
          ((False, ''App storage not available''), st))"
  by (auto simp: upload_file_def storage_path_def truthy_def
      split: prod.splits sum.splits option.splits)

theorem upload_file_paths_witness:
  "upload_file ex_storage ex_upload 5 ''a.jpg'' (Some ''42'') [] =
     ((True, ''users/42/a.jpg''), [(''users/42/a.jpg'', 5)]) \<and>
   upload_file ex_storage ex_upload 5 ''a.jpg'' None [] =
     ((True, ''uploads/a.jpg''), [(''uploads/a.jpg'', 5)]) \<and>
   upload_file (ex_storage\<lparr>storage_available := False\<rparr>) ex_upload 5 ''a.jpg'' (Some ''42'') [] =
     ((False, ''App storage not available''), [])"
  using upload_file_paths [of ex_storage "Some ''42''" "''42''" ex_upload 5 "''a.jpg''" "[]"]
    upload_file_paths [of ex_storage None "''42''" ex_upload 5 "''a.jpg''" "[]"]
    upload_file_paths [of "ex_storage\<lparr>storage_available := False\<rparr>" "Some ''42''" "''42''"
      ex_upload 5 "''a.jpg''" "[]"]
  by (simp add: ex_storage_def ex_upload_def)

end
